theory Spec2Isabelle
  imports Main "HOL-Library.Word"
begin

section \<open>Data model\<close>

text \<open>
  The development embeds \<^verbatim>\<open>client.go\<close> of the restuss client: the retrying executor
  \<^verbatim>\<open>performCallAndReadResponse\<close> and two of its callers, \<^verbatim>\<open>GetAssetByName\<close> and
  \<^verbatim>\<open>GetFindingsByAssetName\<close>.

  Byte slices and Go strings are \<open>string\<close> (lists of 8-bit characters).
  \<^verbatim>\<open>time.Duration\<close> is a signed 64-bit count of nanoseconds: a \<open>64 word\<close>, read with
  \<open>sint\<close>; its multiplication wraps around as Go's does.
\<close>

type_synonym bytes = string
type_synonym Duration = "64 word"

definition Second :: Duration where
  "Second = 1000000000"

text \<open>
  An \<^verbatim>\<open>io.Reader\<close> is consumed by reading: \<open>unread\<close> holds the bytes still to be
  delivered, \<open>read_err\<close> the error the reader ends with instead of a clean end of input
  (\<open>None\<close> for the in-memory readers the callers of this file build).
\<close>

record Reader =
  unread :: bytes
  read_err :: "string option"

record Request =
  Method :: string
  URL :: string
  ReqHeader :: "string \<rightharpoonup> string"
  ReqBody :: "Reader option"

record Response =
  StatusCode :: int
  Header :: "string \<rightharpoonup> string"
  Body :: bytes

datatype error =
    FailedReadRequestBody string
  | FailedCall string
  | RetryLimitExceeded
  | FailedReadResponse string
  | UnableToMarshal string
  | UnableToCreateRequest string
  | NoAssetsMatching string
  | MoreThanOneAsset string nat
  | NilDereference

text \<open>
  What a call does to the outside world, in order. \<open>Send i b\<close> is the \<open>i\<close>-th invocation of
  \<^verbatim>\<open>c.httpClient.Do(req)\<close> (counting from 0), with \<open>b\<close> the bytes that \<^verbatim>\<open>req.Body\<close> can
  still deliver at that moment, which is what the transport reads and puts on the wire.
  \<open>CloseBody i\<close> is a \<^verbatim>\<open>Close\<close> of the body of the response to the \<open>i\<close>-th send.
  The \<^verbatim>\<open>log.Printf\<close> lines are not recorded.
\<close>

datatype event =
    ReadRequestBody
  | AddAuthHeaders
  | Send nat bytes
  | ReadResponseBody nat
  | CloseBody nat
  | Sleep Duration

text \<open>
  The surroundings of one call of \<^verbatim>\<open>performCallAndReadResponse\<close>:
  \<^item> \<open>transport i\<close>: what the network answers to the \<open>i\<close>-th send, an error text when no
    HTTP response is obtained;
  \<^item> \<open>ctx_done_at\<close>: the time, in nanoseconds from the start of the call, at which the
    context the caller attached with \<^verbatim>\<open>req.WithContext(ctx)\<close> is cancelled or runs past
    its deadline (\<open>None\<close>: never);
  \<^item> \<open>b_Duration k\<close>: what the \<open>k\<close>-th call of \<^verbatim>\<open>b.Duration()\<close> returns (the backoff
    library with its random jitter).
\<close>

record World =
  transport :: "nat \<Rightarrow> string + Response"
  ctx_done_at :: "int option"
  b_Duration :: "nat \<Rightarrow> Duration"

text \<open>
  The local variables of \<^verbatim>\<open>performCallAndReadResponse\<close> that change during the call,
  with the clock and the trace of events. \<open>req_unread\<close> is what \<^verbatim>\<open>req.Body\<close> can still
  deliver, \<open>b_attempt\<close> the number of calls of \<^verbatim>\<open>b.Duration()\<close> so far, and \<open>res\<close> holds
  the response together with the index of the send that obtained it. The clock counts
  nanoseconds from the start of the call; it advances while the call sleeps, sending and
  reading being taken as immediate.
\<close>

record State =
  req_unread :: bytes
  b_attempt :: nat
  success :: bool
  res :: "(nat \<times> Response) option"
  clock :: int
  trace :: "event list"

section \<open>Library functions the executor calls\<close>

text \<open>\<^verbatim>\<open>ioutil.ReadAll\<close>: everything the reader still holds, or the reader's error.\<close>

definition ReadAll :: "Reader \<Rightarrow> string + bytes" where
  "ReadAll r = (case read_err r of None \<Rightarrow> Inr (unread r) | Some e \<Rightarrow> Inl e)"

text \<open>
  \<^verbatim>\<open>Header.Get\<close>: the value stored under the key, the empty string when there is none.
  Go compares header names without regard to case; here a header is stored under the name
  by which the code asks for it.
\<close>

definition Header_Get :: "(string \<rightharpoonup> string) \<Rightarrow> string \<Rightarrow> string" where
  "Header_Get h k = (case h k of None \<Rightarrow> [] | Some v \<Rightarrow> v)"

text \<open>
  \<^verbatim>\<open>strconv.Atoi\<close> on a 64-bit platform: an optional sign, then one or more decimal
  digits; \<open>None\<close> stands for its syntax error and for its range error (a value outside
  the 64-bit \<^verbatim>\<open>int\<close>).
\<close>

definition digit :: "char \<Rightarrow> int option" where
  "digit c = (let n = (of_char c :: int) in if 48 \<le> n \<and> n \<le> 57 then Some (n - 48) else None)"

fun digits :: "int \<Rightarrow> string \<Rightarrow> int option" where
  "digits acc [] = Some acc"
| "digits acc (c # cs) = (case digit c of None \<Rightarrow> None | Some d \<Rightarrow> digits (acc * 10 + d) cs)"

definition Atoi :: "string \<Rightarrow> int option" where
  "Atoi s =
     (let (neg, ds) =
        (case s of
           [] \<Rightarrow> (False, [])
         | c # cs \<Rightarrow>
             if c = CHR ''-'' then (True, cs)
             else if c = CHR ''+'' then (False, cs)
             else (False, s))
      in if ds = [] then None
         else case digits 0 ds of
           None \<Rightarrow> None
         | Some n \<Rightarrow>
             let v = (if neg then - n else n)
             in if v < - (2 ^ 63) \<or> 2 ^ 63 - 1 < v then None else Some v)"

text \<open>
  \<^verbatim>\<open>c.httpClient.Do(req)\<close> at time \<open>t\<close>: the client gives up with the context's error
  once the request's context is done, and otherwise returns what the network answers.
  The text \<open>context canceled\<close> stands for the error the client builds around the
  context's error, whose exact wording the executor does not look at.
\<close>

definition ctx_done :: "World \<Rightarrow> int \<Rightarrow> bool" where
  "ctx_done w t = (case ctx_done_at w of None \<Rightarrow> False | Some c \<Rightarrow> c \<le> t)"

definition httpClient_Do :: "World \<Rightarrow> nat \<Rightarrow> int \<Rightarrow> string + Response" where
  "httpClient_Do w i t = (if ctx_done w t then Inl ''context canceled'' else transport w i)"

section \<open>The executor\<close>

text \<open>
  Lines 507 to 521: the wait after a response with status 300 or more. \<open>backoff\<close> is the
  value \<^verbatim>\<open>b.Duration()\<close> has just returned.
\<close>

definition waitTime :: "Duration \<Rightarrow> Response \<Rightarrow> Duration" where
  "waitTime backoff r =
     (if StatusCode r = 429 then
        (let retryAfter = Header_Get (Header r) ''retry-after''
         in if retryAfter \<noteq> [] then
              (case Atoi retryAfter of
                 None \<Rightarrow> backoff
               | Some retryAfterInt \<Rightarrow> word_of_int retryAfterInt * Second)
            else backoff)
      else backoff)"

text \<open>
  One pass through the body of the \<^verbatim>\<open>for\<close> loop (lines 481 to 534), which ends in a
  \<^verbatim>\<open>return\<close>, a \<^verbatim>\<open>continue\<close> or a \<^verbatim>\<open>break\<close>. The send reads \<^verbatim>\<open>req.Body\<close> to its end,
  so nothing is left in it afterwards; \<^verbatim>\<open>time.Sleep\<close> returns at once for a duration
  that is not positive, and otherwise only when the whole duration has passed.
\<close>

datatype step = Return error | Continue | Break

definition attempt :: "World \<Rightarrow> nat \<Rightarrow> State \<Rightarrow> step \<times> State" where
  "attempt w i s =
     (let s1 = s\<lparr>req_unread := [], trace := trace s @ [Send i (req_unread s)]\<rparr>
      in case httpClient_Do w i (clock s) of
           Inl err \<Rightarrow> (Return (FailedCall err), s1)
         | Inr r \<Rightarrow>
             let s2 = s1\<lparr>res := Some (i, r)\<rparr>
             in if 300 \<le> StatusCode r then
                  (let wt = waitTime (b_Duration w (b_attempt s2)) r
                   in (Continue,
                       s2\<lparr>b_attempt := Suc (b_attempt s2),
                          clock := clock s2 + max 0 (sint wt),
                          trace := trace s2 @ [ReadResponseBody i, CloseBody i, Sleep wt]\<rparr>))
                else (Break, s2\<lparr>success := True\<rparr>))"

text \<open>The loop \<^verbatim>\<open>for i := 0; i < 10; i++\<close>, entered at \<open>i\<close>.\<close>

function retry_loop :: "World \<Rightarrow> nat \<Rightarrow> State \<Rightarrow> error option \<times> State" where
  "retry_loop w i s =
     (if i < 10 then
        (case attempt w i s of
           (Return e, s') \<Rightarrow> (Some e, s')
         | (Continue, s') \<Rightarrow> retry_loop w (Suc i) s'
         | (Break, s') \<Rightarrow> (None, s'))
      else (None, s))"
  by pat_completeness auto
termination
  by (relation "measure (\<lambda>(w, i, s). 10 - i)") auto

declare retry_loop.simps [simp del]

text \<open>
  The deferred function of lines 537 to 544. It is registered after the loop, so it does
  not run when the loop returns; the bodies of the client's responses are never nil.
\<close>

definition deferred_close :: "(nat \<times> Response) option \<Rightarrow> State \<Rightarrow> State" where
  "deferred_close r s =
     (case r of None \<Rightarrow> s | Some (i, _) \<Rightarrow> s\<lparr>trace := trace s @ [CloseBody i]\<rparr>)"

text \<open>
  Lines 464 to 471: a request with a body has it read to the end, once; a request without
  one is left alone. The result is the buffered bytes with the events this took, or the
  reader's error.
\<close>

definition read_request_body :: "Reader option \<Rightarrow> string + bytes \<times> event list" where
  "read_request_body body =
     (case body of
        None \<Rightarrow> Inr ([], [])
      | Some rd \<Rightarrow>
          (case ReadAll rd of
             Inl e \<Rightarrow> Inl e
           | Inr b \<Rightarrow> Inr (b, [ReadRequestBody])))"

definition initial_state :: "bytes \<Rightarrow> event list \<Rightarrow> State" where
  "initial_state b tr =
     \<lparr>req_unread = b, b_attempt = 0, success = False, res = None, clock = 0, trace = tr\<rparr>"

text \<open>
  \<^verbatim>\<open>performCallAndReadResponse(req, data)\<close>. \<open>data\<close> is \<open>None\<close> for a nil target, and
  otherwise the decoder of the target's type (\<^verbatim>\<open>json.NewDecoder(res.Body).Decode\<close>),
  which yields the decoded value or an error text. The result is the returned error, or
  the value left in the target (\<open>None\<close> when there is no target), with the final state.
  Line 473 puts the buffered bytes back into \<^verbatim>\<open>req.Body\<close> and line 475 calls
  \<^verbatim>\<open>c.auth.AddAuthHeaders(req)\<close>, both before the loop.
\<close>

definition performCallAndReadResponse ::
  "World \<Rightarrow> Request \<Rightarrow> (bytes \<Rightarrow> string + 'a) option \<Rightarrow> (error + 'a option) \<times> State" where
  "performCallAndReadResponse w req data =
     (case read_request_body (ReqBody req) of
        Inl e \<Rightarrow> (Inl (FailedReadRequestBody e), initial_state [] [ReadRequestBody])
      | Inr (reqBodyBytes, tr) \<Rightarrow>
          (case retry_loop w 0 (initial_state reqBodyBytes (tr @ [AddAuthHeaders])) of
             (Some e, s1) \<Rightarrow> (Inl e, s1)
           | (None, s1) \<Rightarrow>
               (let s2 = deferred_close (res s1) s1
                in if \<not> success s1 then (Inl RetryLimitExceeded, s2)
                   else case data of
                     None \<Rightarrow> (Inr None, s2)
                   | Some decode \<Rightarrow>
                       (case res s1 of
                          None \<Rightarrow> (Inl NilDereference, s2)
                        | Some (_, r) \<Rightarrow>
                            (case decode (Body r) of
                               Inl e \<Rightarrow> (Inl (FailedReadResponse e), s2)
                             | Inr v \<Rightarrow> (Inr (Some v), s2))))))"

section \<open>The callers\<close>

text \<open>
  The payloads are nested Go maps, kept as JSON values; \<^verbatim>\<open>json.Marshal\<close> and the parsing
  of the URL inside \<^verbatim>\<open>http.NewRequest\<close> belong to the standard library and are taken as
  given: \<open>json_Marshal\<close> yields the encoding or an error text, \<open>NewRequest_err\<close> the
  error for a URL that does not parse.
\<close>

datatype json = JString string | JArray "json list" | JObject "(string \<times> json) list"

record Lib =
  json_Marshal :: "json \<Rightarrow> string + bytes"
  NewRequest_err :: "string \<Rightarrow> string option"

text \<open>
  Of \<^verbatim>\<open>NessusClient\<close> the callers read the base URL; its \<^verbatim>\<open>auth\<close> and \<^verbatim>\<open>httpClient\<close>
  are what a \<open>World\<close> describes.
\<close>

record NessusClient =
  url :: string

definition NewRequest :: "Lib \<Rightarrow> string \<Rightarrow> string \<Rightarrow> bytes \<Rightarrow> string + Request" where
  "NewRequest lib m u b =
     (case NewRequest_err lib u of
        Some e \<Rightarrow> Inl e
      | None \<Rightarrow>
          Inr \<lparr>Method = m, URL = u, ReqHeader = Map.empty,
               ReqBody = Some \<lparr>unread = b, read_err = None\<rparr>\<rparr>)"

definition Header_Set :: "string \<Rightarrow> string \<Rightarrow> Request \<Rightarrow> Request" where
  "Header_Set k v r = r\<lparr>ReqHeader := (ReqHeader r)(k \<mapsto> v)\<rparr>"

text \<open>
  The steps both callers take to build a request: \<^verbatim>\<open>http.NewRequest\<close> with method POST,
  then the two \<^verbatim>\<open>req.Header.Set\<close> lines.
\<close>

definition post_json :: "Lib \<Rightarrow> string \<Rightarrow> bytes \<Rightarrow> error + Request" where
  "post_json lib u b =
     (case NewRequest lib ''POST'' u b of
        Inl e \<Rightarrow> Inl (UnableToCreateRequest e)
      | Inr req \<Rightarrow>
          Inr (Header_Set ''Accept'' ''application/json''
                 (Header_Set ''Content-Type'' ''application/json'' req)))"

subsection \<open>GetAssetByName\<close>

definition asset_payload :: "string \<Rightarrow> json" where
  "asset_payload name =
     JObject [(''filter'', JObject [(''and'', JArray [JObject
       [(''property'', JString ''name''),
        (''operator'', JString ''eq''),
        (''value'', JString name)]])])]"

text \<open>
  The target of the call is a struct with the one field \<^verbatim>\<open>Assets\<close>, so the decoder
  yields the list of assets; a target the call leaves untouched holds no assets. The
  function reads nothing inside an asset, whose type is left open.
\<close>

definition GetAssetByName ::
  "Lib \<Rightarrow> NessusClient \<Rightarrow> World \<Rightarrow> (bytes \<Rightarrow> string + 'asset list) \<Rightarrow> string \<Rightarrow> error + 'asset" where
  "GetAssetByName lib c w decode name =
     (case json_Marshal lib (asset_payload name) of
        Inl e \<Rightarrow> Inl (UnableToMarshal e)
      | Inr jsonBody \<Rightarrow>
          (case post_json lib (url c @ ''/api/v3/assets/search'') jsonBody of
             Inl e \<Rightarrow> Inl e
           | Inr req \<Rightarrow>
               (case fst (performCallAndReadResponse w req (Some decode)) of
                  Inl err \<Rightarrow> Inl err
                | Inr result \<Rightarrow>
                    (let Assets = (case result of None \<Rightarrow> [] | Some as \<Rightarrow> as)
                     in if length Assets = 0 then Inl (NoAssetsMatching name)
                        else if length Assets > 1
                          then Inl (MoreThanOneAsset name (length Assets))
                        else Inr (Assets ! 0)))))"

subsection \<open>GetFindingsByAssetName\<close>

record Pagination =
  Next :: string
  Limit :: int
  Total :: int

record 'finding FindingsResult =
  Findings :: "'finding list"
  Pagination :: Pagination

definition findings_payload :: "string \<Rightarrow> json" where
  "findings_payload name =
     JObject
       [(''filter'', JObject [(''and'', JArray [JObject
          [(''property'', JString ''asset.name''),
           (''operator'', JString ''eq''),
           (''value'', JString name)]])]),
        (''fields'', JArray (map JString
          [''output'', ''id'', ''severity'', ''port'', ''protocol'', ''service'',
           ''plugin_id'', ''name'', ''description'', ''synopsis'', ''cvss3_base_score'',
           ''cvss2_base_score'', ''cwe'', ''see_also'']))]"

definition findings_path :: string where
  "findings_path = ''/api/v3/findings/vulnerabilities/host/search''"

text \<open>\<^verbatim>\<open>fmt.Sprintf("{\"next\":\"%s\"}", next)\<close>; character 0x22 is the double quote.\<close>

definition jsonNext :: "string \<Rightarrow> bytes" where
  "jsonNext nxt =
     [CHR ''{'', CHR 0x22] @ ''next'' @ [CHR 0x22, CHR '':'', CHR 0x22] @ nxt @ [CHR 0x22, CHR ''}'']"

text \<open>The value of a freshly declared \<^verbatim>\<open>result\<close> struct, and what a call leaves in it.\<close>

definition result_after :: "'finding FindingsResult option \<Rightarrow> 'finding FindingsResult" where
  "result_after r =
     (case r of
        None \<Rightarrow> \<lparr>Findings = [], Pagination = \<lparr>Next = [], Limit = 0, Total = 0\<rparr>\<rparr>
      | Some v \<Rightarrow> v)"

text \<open>
  The loop of lines 423 to 445. Nothing bounds the number of pages, so the loop need not
  end: the result is \<open>None\<close> when it does not. \<open>calls k\<close> is the world in which the
  \<open>k\<close>-th call of \<^verbatim>\<open>performCallAndReadResponse\<close> takes place, and \<open>reqs\<close> collects the
  requests handed to it so far.
\<close>

partial_function (option) pages_loop ::
  "Lib \<Rightarrow> NessusClient \<Rightarrow> (nat \<Rightarrow> World) \<Rightarrow> (bytes \<Rightarrow> string + 'finding FindingsResult) \<Rightarrow>
   nat \<Rightarrow> string \<Rightarrow> 'finding list \<Rightarrow> Request list \<Rightarrow>
   ((error + 'finding list) \<times> Request list) option" where
  "pages_loop lib c calls decode k nxt findings reqs =
     (if nxt = [] then Some (Inr findings, reqs)
      else
        (case post_json lib (url c @ findings_path) (jsonNext nxt) of
           Inl e \<Rightarrow> Some (Inl e, reqs)
         | Inr req \<Rightarrow>
             (case fst (performCallAndReadResponse (calls k) req (Some decode)) of
                Inl err \<Rightarrow> Some (Inl err, reqs @ [req])
              | Inr r \<Rightarrow>
                  pages_loop lib c calls decode (Suc k)
                    (Next (Pagination (result_after r)))
                    (findings @ Findings (result_after r))
                    (reqs @ [req]))))"

definition GetFindingsByAssetName ::
  "Lib \<Rightarrow> NessusClient \<Rightarrow> (nat \<Rightarrow> World) \<Rightarrow> (bytes \<Rightarrow> string + 'finding FindingsResult) \<Rightarrow>
   string \<Rightarrow> ((error + 'finding list) \<times> Request list) option" where
  "GetFindingsByAssetName lib c calls decode name =
     (case json_Marshal lib (findings_payload name) of
        Inl e \<Rightarrow> Some (Inl (UnableToMarshal e), [])
      | Inr jsonBody \<Rightarrow>
          (case post_json lib (url c @ findings_path) jsonBody of
             Inl e \<Rightarrow> Some (Inl e, [])
           | Inr req \<Rightarrow>
               (case fst (performCallAndReadResponse (calls 0) req (Some decode)) of
                  Inl err \<Rightarrow> Some (Inl err, [req])
                | Inr r \<Rightarrow>
                    pages_loop lib c calls decode 1
                      (Next (Pagination (result_after r)))
                      ([] @ Findings (result_after r))
                      [req])))"

section \<open>Observations on a call\<close>

text \<open>The sends of a trace, in order, and its sleeps.\<close>

fun sends :: "event list \<Rightarrow> (nat \<times> bytes) list" where
  "sends [] = []"
| "sends (Send i b # es) = (i, b) # sends es"
| "sends (e # es) = sends es"

fun sleeps :: "event list \<Rightarrow> Duration list" where
  "sleeps [] = []"
| "sleeps (Sleep d # es) = d # sleeps es"
| "sleeps (e # es) = sleeps es"

text \<open>
  Whether every send of a trace comes right after an \<open>AddAuthHeaders\<close>.
\<close>

fun auth_before_every_send :: "event list \<Rightarrow> bool" where
  "auth_before_every_send [] = True"
| "auth_before_every_send (Send i b # es) = False"
| "auth_before_every_send (AddAuthHeaders # Send i b # es) = auth_before_every_send es"
| "auth_before_every_send (e # es) = auth_before_every_send es"

text \<open>
  As long as every send is answered with a status of 300 or more, the course of a call
  is fixed by its world: \<open>attempt_time w i\<close> is the time at which the \<open>i\<close>-th send is
  issued, \<open>outcome w i\<close> what that send returns, and \<open>wait w i\<close> the duration slept after
  it. \<open>retried w i\<close> says that the \<open>i\<close>-th send obtains a response with a status of 300
  or more.
\<close>

fun attempt_time :: "World \<Rightarrow> nat \<Rightarrow> int" where
  "attempt_time w 0 = 0"
| "attempt_time w (Suc i) =
     attempt_time w i +
     (case httpClient_Do w i (attempt_time w i) of
        Inl _ \<Rightarrow> 0
      | Inr r \<Rightarrow> max 0 (sint (waitTime (b_Duration w i) r)))"

definition outcome :: "World \<Rightarrow> nat \<Rightarrow> string + Response" where
  "outcome w i = httpClient_Do w i (attempt_time w i)"

definition retried :: "World \<Rightarrow> nat \<Rightarrow> bool" where
  "retried w i = (case outcome w i of Inl _ \<Rightarrow> False | Inr r \<Rightarrow> 300 \<le> StatusCode r)"

definition wait :: "World \<Rightarrow> nat \<Rightarrow> Duration" where
  "wait w i = (case outcome w i of Inl _ \<Rightarrow> 0 | Inr r \<Rightarrow> waitTime (b_Duration w i) r)"

text \<open>
  The events of the first \<open>k\<close> passes through the loop when each of them ends in
  \<^verbatim>\<open>continue\<close>, for a request whose buffered body is \<open>b\<close>, and the state they lead to.
\<close>

fun retried_events :: "World \<Rightarrow> bytes \<Rightarrow> nat \<Rightarrow> event list" where
  "retried_events w b 0 = []"
| "retried_events w b (Suc k) =
     retried_events w b k @
     [Send k (if k = 0 then b else []), ReadResponseBody k, CloseBody k, Sleep (wait w k)]"

fun after_retries :: "World \<Rightarrow> State \<Rightarrow> nat \<Rightarrow> State" where
  "after_retries w s 0 = s"
| "after_retries w s (Suc k) = snd (attempt w k (after_retries w s k))"

text \<open>
  The body that the interface prescribes for the request of a follow-up page,
  \<^verbatim>\<open>{"next":"<token>"}\<close>, written out byte by byte and without reference to the code:
  the opening brace, the key \<open>next\<close> in double quotes (character 0x22), a colon, the
  token in double quotes, the closing brace.
\<close>

definition next_page_body :: "string \<Rightarrow> bytes" where
  "next_page_body token =
     CHR ''{'' # CHR 0x22 # CHR ''n'' # CHR ''e'' # CHR ''x'' # CHR ''t'' # CHR 0x22 #
     CHR '':'' # CHR 0x22 # token @ [CHR 0x22, CHR ''}'']"

text \<open>
  The bytes a request holds for the transport, and what it means that the backend serves
  the pages \<open>ps\<close>, one per call of \<^verbatim>\<open>performCallAndReadResponse\<close>, from the \<open>k\<close>-th call
  on, when that call is made with the request body \<open>b\<close>: each call succeeds and decodes
  to its page, every page but the last carries a cursor that is not empty, and the
  last page carries the empty cursor. The page after a page with the cursor \<open>t\<close> is
  served to the prescribed body \<open>next_page_body t\<close>.
\<close>

definition body_bytes :: "Request \<Rightarrow> bytes" where
  "body_bytes req = (case ReqBody req of None \<Rightarrow> [] | Some rd \<Rightarrow> unread rd)"

definition page_request :: "NessusClient \<Rightarrow> bytes \<Rightarrow> Request" where
  "page_request c b =
     \<lparr>Method = ''POST'', URL = url c @ findings_path,
      ReqHeader = [''Content-Type'' \<mapsto> ''application/json'', ''Accept'' \<mapsto> ''application/json''],
      ReqBody = Some \<lparr>unread = b, read_err = None\<rparr>\<rparr>"

fun serves ::
  "NessusClient \<Rightarrow> (nat \<Rightarrow> World) \<Rightarrow> (bytes \<Rightarrow> string + 'finding FindingsResult) \<Rightarrow>
   nat \<Rightarrow> bytes \<Rightarrow> 'finding FindingsResult list \<Rightarrow> bool" where
  "serves c calls decode k b [] = False"
| "serves c calls decode k b (p # ps) =
     (fst (performCallAndReadResponse (calls k) (page_request c b) (Some decode)) = Inr (Some p) \<and>
      (if ps = [] then Next (Pagination p) = []
       else Next (Pagination p) \<noteq> [] \<and>
            serves c calls decode (Suc k) (next_page_body (Next (Pagination p))) ps))"

section \<open>Worlds and requests for the examples\<close>

definition response :: "int \<Rightarrow> bytes \<Rightarrow> Response" where
  "response code b = \<lparr>StatusCode = code, Header = Map.empty, Body = b\<rparr>"

definition rate_limited :: "string \<Rightarrow> Response" where
  "rate_limited h =
     \<lparr>StatusCode = 429, Header = [''retry-after'' \<mapsto> h], Body = ''slow down''\<rparr>"

text \<open>A POST request whose body is the one byte \<open>x\<close>.\<close>

definition post_x :: Request where
  "post_x =
     \<lparr>Method = ''POST'', URL = ''https://cloud.example/scans'', ReqHeader = Map.empty,
      ReqBody = Some \<lparr>unread = ''x'', read_err = None\<rparr>\<rparr>"

text \<open>
  A backend that answers every send with status 500, one that answers 500 once and 200
  from then on, one that answers 200 at once, and one whose third send finds the
  connection refused. The backoff is 100 ms throughout and no context is cancelled.
\<close>

definition busy_world :: World where
  "busy_world =
     \<lparr>transport = (\<lambda>i. Inr (response 500 ''busy'')), ctx_done_at = None,
      b_Duration = (\<lambda>k. 100000000)\<rparr>"

definition recovering_world :: World where
  "recovering_world =
     \<lparr>transport = (\<lambda>i. if i = 0 then Inr (response 500 ''busy'') else Inr (response 200 ''done'')),
      ctx_done_at = None, b_Duration = (\<lambda>k. 100000000)\<rparr>"

definition ready_world :: World where
  "ready_world =
     \<lparr>transport = (\<lambda>i. Inr (response 200 ''done'')), ctx_done_at = None,
      b_Duration = (\<lambda>k. 100000000)\<rparr>"

definition refusing_world :: World where
  "refusing_world =
     \<lparr>transport = (\<lambda>i. if i < 2 then Inr (response 500 ''busy'') else Inl ''connection refused''),
      ctx_done_at = None, b_Duration = (\<lambda>k. 100000000)\<rparr>"

text \<open>
  The busy backend again, with a context that is cancelled 50 ms after the start of the
  call, in the middle of the first sleep.
\<close>

definition cancelled_world :: World where
  "cancelled_world = busy_world\<lparr>ctx_done_at := Some 50000000\<rparr>"

text \<open>
  And with a context that is cancelled 950 ms after the start of the call, in the middle
  of the sleep that follows the tenth answer.
\<close>

definition late_cancelled_world :: World where
  "late_cancelled_world = busy_world\<lparr>ctx_done_at := Some 950000000\<rparr>"

text \<open>Decoders: one that accepts every body as it is, and one that rejects every body.\<close>

definition accept :: "bytes \<Rightarrow> string + bytes" where
  "accept b = Inr b"

definition reject :: "bytes \<Rightarrow> string + bytes" where
  "reject b = Inl ''invalid character''"

text \<open>A backend that answers every send with status 429 and the given \<open>retry-after\<close>.\<close>

definition throttled_world :: "string \<Rightarrow> World" where
  "throttled_world h =
     \<lparr>transport = (\<lambda>i. Inr (rate_limited h)), ctx_done_at = None,
      b_Duration = (\<lambda>k. 100000000)\<rparr>"

text \<open>
  For the callers: a library whose \<^verbatim>\<open>json.Marshal\<close> and \<^verbatim>\<open>http.NewRequest\<close> do not fail, a
  client, a decoder that finds the one asset \<open>web-1\<close> in every body, and a backend with
  two pages of findings: \<open>A\<close> and \<open>B\<close> with the cursor \<open>c1\<close>, then \<open>C\<close> with the empty
  cursor.
\<close>

definition plain_lib :: Lib where
  "plain_lib = \<lparr>json_Marshal = (\<lambda>j. Inr ''filter''), NewRequest_err = (\<lambda>u. None)\<rparr>"

definition example_client :: NessusClient where
  "example_client = \<lparr>url = ''https://cloud.example''\<rparr>"

definition one_asset :: "bytes \<Rightarrow> string + string list" where
  "one_asset b = Inr [''web-1'']"

definition page_one :: "string FindingsResult" where
  "page_one = \<lparr>Findings = [''A'', ''B''], Pagination = \<lparr>Next = ''c1'', Limit = 2, Total = 3\<rparr>\<rparr>"

definition page_two :: "string FindingsResult" where
  "page_two = \<lparr>Findings = [''C''], Pagination = \<lparr>Next = [], Limit = 2, Total = 3\<rparr>\<rparr>"

definition two_page_backend :: "nat \<Rightarrow> World" where
  "two_page_backend k =
     \<lparr>transport = (\<lambda>i. Inr (response 200 (if k = 0 then ''first'' else ''second''))),
      ctx_done_at = None, b_Duration = (\<lambda>k. 100000000)\<rparr>"

definition decode_page :: "bytes \<Rightarrow> string + string FindingsResult" where
  "decode_page b =
     (if b = ''first'' then Inr page_one
      else if b = ''second'' then Inr page_two
      else Inl ''unexpected end of JSON input'')"

section \<open>The retry loop\<close>

text \<open>One pass through the loop, by the outcome of its send.\<close>

lemma retry_loop_step:
  "i < 10 \<Longrightarrow> fst (attempt w i s) = Continue \<Longrightarrow>
   retry_loop w i s = retry_loop w (Suc i) (snd (attempt w i s))"
  by (subst retry_loop.simps) (simp add: split_beta)

lemma retry_loop_end: "retry_loop w 10 s = (None, s)"
  by (subst retry_loop.simps) simp

lemma attempt_retried:
  assumes "httpClient_Do w i (clock s) = Inr r" and "300 \<le> StatusCode r"
  shows "attempt w i s =
     (Continue,
      s\<lparr>req_unread := [], b_attempt := Suc (b_attempt s), res := Some (i, r),
        clock := clock s + max 0 (sint (waitTime (b_Duration w (b_attempt s)) r)),
        trace := trace s @ [Send i (req_unread s), ReadResponseBody i, CloseBody i,
                            Sleep (waitTime (b_Duration w (b_attempt s)) r)]\<rparr>)"
  using assms by (simp add: attempt_def Let_def)

lemma attempt_failed:
  assumes "httpClient_Do w i (clock s) = Inl e"
  shows "attempt w i s =
     (Return (FailedCall e), s\<lparr>req_unread := [], trace := trace s @ [Send i (req_unread s)]\<rparr>)"
  using assms by (simp add: attempt_def Let_def)

lemma attempt_success:
  assumes "httpClient_Do w i (clock s) = Inr r" and "StatusCode r < 300"
  shows "attempt w i s =
     (Break, s\<lparr>req_unread := [], success := True, res := Some (i, r),
               trace := trace s @ [Send i (req_unread s)]\<rparr>)"
  using assms by (simp add: attempt_def Let_def)

lemma after_retries_invariant:
  assumes "clock s = 0" and "b_attempt s = 0"
  shows "\<forall>j<k. retried w j \<Longrightarrow>
    clock (after_retries w s k) = attempt_time w k \<and>
    b_attempt (after_retries w s k) = k \<and>
    success (after_retries w s k) = success s \<and>
    trace (after_retries w s k) = trace s @ retried_events w (req_unread s) k \<and>
    req_unread (after_retries w s k) = (if k = 0 then req_unread s else []) \<and>
    (0 < k \<longrightarrow> (\<exists>r. res (after_retries w s k) = Some (k - 1, r)))"
proof (induction k)
  case 0
  show ?case using assms by simp
next
  case (Suc k)
  let ?s = "after_retries w s k"
  from Suc have IH: "clock ?s = attempt_time w k" "b_attempt ?s = k" "success ?s = success s"
    "trace ?s = trace s @ retried_events w (req_unread s) k"
    "req_unread ?s = (if k = 0 then req_unread s else [])"
    by simp_all
  from Suc.prems have "retried w k" by simp
  then obtain r where r: "httpClient_Do w k (clock ?s) = Inr r" "300 \<le> StatusCode r"
    by (auto simp: retried_def outcome_def IH split: sum.splits)
  have w: "wait w k = waitTime (b_Duration w k) r"
    using r by (simp add: wait_def outcome_def IH)
  show ?case
    using r IH w by (simp add: attempt_retried [OF r])
qed

lemma after_retries_continue:
  assumes "clock s = 0" and "b_attempt s = 0" and "\<forall>j<Suc k. retried w j"
  shows "fst (attempt w k (after_retries w s k)) = Continue"
proof -
  let ?s = "after_retries w s k"
  have c: "clock ?s = attempt_time w k"
    using after_retries_invariant [OF assms(1,2), of k w] assms(3) by simp
  from assms(3) have "retried w k" by simp
  with c obtain r where r: "httpClient_Do w k (clock ?s) = Inr r" "300 \<le> StatusCode r"
    by (auto simp: retried_def outcome_def split: sum.splits)
  show ?thesis by (simp add: attempt_retried [OF r])
qed

lemma retry_loop_after_retries:
  assumes "clock s = 0" and "b_attempt s = 0"
  shows "k \<le> 10 \<Longrightarrow> \<forall>j<k. retried w j \<Longrightarrow>
    retry_loop w 0 s = retry_loop w k (after_retries w s k)"
proof (induction k)
  case 0
  show ?case by simp
next
  case (Suc k)
  then have "retry_loop w 0 s = retry_loop w k (after_retries w s k)" by simp
  also have "\<dots> = retry_loop w (Suc k) (snd (attempt w k (after_retries w s k)))"
    using Suc.prems after_retries_continue [OF assms, of k w]
    by (intro retry_loop_step) simp_all
  finally show ?case by simp
qed


lemma sends_append: "sends (xs @ ys) = sends xs @ sends ys"
  by (induction xs rule: sends.induct) simp_all

lemma sleeps_append: "sleeps (xs @ ys) = sleeps xs @ sleeps ys"
  by (induction xs rule: sleeps.induct) simp_all

lemma sends_retried_events:
  "sends (retried_events w b k) = map (\<lambda>j. (j, if j = 0 then b else [])) [0..<k]"
  by (induction k) (simp_all add: sends_append)

lemma sleeps_retried_events: "sleeps (retried_events w b k) = map (wait w) [0..<k]"
  by (induction k) (simp_all add: sleeps_append)

lemma read_request_body_events:
  "read_request_body x = Inr (b, pre) \<Longrightarrow> pre = [] \<or> pre = [ReadRequestBody]"
  by (auto simp: read_request_body_def split: option.splits sum.splits)

lemma retry_loop_return:
  "i < 10 \<Longrightarrow> attempt w i s = (Return e, s') \<Longrightarrow> retry_loop w i s = (Some e, s')"
  by (subst retry_loop.simps) simp

lemma retry_loop_break:
  "i < 10 \<Longrightarrow> attempt w i s = (Break, s') \<Longrightarrow> retry_loop w i s = (None, s')"
  by (subst retry_loop.simps) simp

lemma loop_exhausted:
  assumes "clock s = 0" and "b_attempt s = 0" and "\<forall>j<10. retried w j"
  shows "retry_loop w 0 s = (None, after_retries w s 10)"
  using retry_loop_after_retries [OF assms(1,2), of 10 w] assms(3)
  by (simp add: retry_loop_end)

lemma loop_failed:
  assumes "clock s = 0" and "b_attempt s = 0" and "k < 10" and "\<forall>j<k. retried w j"
    and "outcome w k = Inl e"
  shows "retry_loop w 0 s =
    (Some (FailedCall e),
     (after_retries w s k)\<lparr>req_unread := [],
        trace := trace s @ retried_events w (req_unread s) k @
                 [Send k (if k = 0 then req_unread s else [])]\<rparr>)"
proof -
  let ?s = "after_retries w s k"
  note inv = after_retries_invariant [OF assms(1,2,4)]
  have "httpClient_Do w k (clock ?s) = Inl e"
    using assms(5) inv by (simp add: outcome_def)
  then have "attempt w k ?s =
      (Return (FailedCall e), ?s\<lparr>req_unread := [], trace := trace ?s @ [Send k (req_unread ?s)]\<rparr>)"
    by (rule attempt_failed)
  then have "retry_loop w k ?s =
      (Some (FailedCall e), ?s\<lparr>req_unread := [], trace := trace ?s @ [Send k (req_unread ?s)]\<rparr>)"
    using assms(3) by (intro retry_loop_return)
  moreover have "retry_loop w 0 s = retry_loop w k ?s"
    using retry_loop_after_retries [OF assms(1,2), of k w] assms(3,4) by simp
  ultimately show ?thesis using inv by simp
qed

lemma loop_success:
  assumes "clock s = 0" and "b_attempt s = 0" and "k < 10" and "\<forall>j<k. retried w j"
    and "outcome w k = Inr r" and "StatusCode r < 300"
  shows "retry_loop w 0 s =
    (None,
     (after_retries w s k)\<lparr>req_unread := [], success := True, res := Some (k, r),
        trace := trace s @ retried_events w (req_unread s) k @
                 [Send k (if k = 0 then req_unread s else [])]\<rparr>)"
proof -
  let ?s = "after_retries w s k"
  note inv = after_retries_invariant [OF assms(1,2,4)]
  have "httpClient_Do w k (clock ?s) = Inr r"
    using assms(5) inv by (simp add: outcome_def)
  then have "attempt w k ?s =
      (Break, ?s\<lparr>req_unread := [], success := True, res := Some (k, r),
                 trace := trace ?s @ [Send k (req_unread ?s)]\<rparr>)"
    using assms(6) by (rule attempt_success)
  then have "retry_loop w k ?s =
      (None, ?s\<lparr>req_unread := [], success := True, res := Some (k, r),
                 trace := trace ?s @ [Send k (req_unread ?s)]\<rparr>)"
    using assms(3) by (intro retry_loop_break)
  moreover have "retry_loop w 0 s = retry_loop w k ?s"
    using retry_loop_after_retries [OF assms(1,2), of k w] assms(3,4) by simp
  ultimately show ?thesis using inv by simp
qed

lemma perform_failed_send:
  assumes "read_request_body (ReqBody req) = Inr (b, pre)"
    and "k < 10" and "\<forall>j<k. retried w j" and "outcome w k = Inl e"
  shows "fst (performCallAndReadResponse w req data) = Inl (FailedCall e)"
    and "trace (snd (performCallAndReadResponse w req data)) =
           pre @ [AddAuthHeaders] @ retried_events w b k @ [Send k (if k = 0 then b else [])]"
    and "clock (snd (performCallAndReadResponse w req data)) = attempt_time w k"
proof -
  let ?s = "initial_state b (pre @ [AddAuthHeaders])"
  have s: "clock ?s = 0" "b_attempt ?s = 0" by (simp_all add: initial_state_def)
  note l = loop_failed [OF s assms(2,3,4)]
  note inv = after_retries_invariant [OF s assms(3)]
  show "fst (performCallAndReadResponse w req data) = Inl (FailedCall e)"
    by (simp add: performCallAndReadResponse_def assms(1) l)
  show "trace (snd (performCallAndReadResponse w req data)) =
           pre @ [AddAuthHeaders] @ retried_events w b k @ [Send k (if k = 0 then b else [])]"
    by (simp add: performCallAndReadResponse_def assms(1) l) (simp add: initial_state_def)
  show "clock (snd (performCallAndReadResponse w req data)) = attempt_time w k"
    using inv by (simp add: performCallAndReadResponse_def assms(1) l)
qed

lemma perform_success:
  assumes "read_request_body (ReqBody req) = Inr (b, pre)"
    and "k < 10" and "\<forall>j<k. retried w j" and "outcome w k = Inr r" and "StatusCode r < 300"
  shows "fst (performCallAndReadResponse w req data) =
           (case data of
              None \<Rightarrow> Inr None
            | Some decode \<Rightarrow>
                (case decode (Body r) of
                   Inl e \<Rightarrow> Inl (FailedReadResponse e)
                 | Inr v \<Rightarrow> Inr (Some v)))"
    and "trace (snd (performCallAndReadResponse w req data)) =
           pre @ [AddAuthHeaders] @ retried_events w b k @
           [Send k (if k = 0 then b else []), CloseBody k]"
    and "success (snd (performCallAndReadResponse w req data))"
proof -
  let ?s = "initial_state b (pre @ [AddAuthHeaders])"
  have s: "clock ?s = 0" "b_attempt ?s = 0" by (simp_all add: initial_state_def)
  note l = loop_success [OF s assms(2,3,4,5)]
  show "fst (performCallAndReadResponse w req data) =
           (case data of
              None \<Rightarrow> Inr None
            | Some decode \<Rightarrow>
                (case decode (Body r) of
                   Inl e \<Rightarrow> Inl (FailedReadResponse e)
                 | Inr v \<Rightarrow> Inr (Some v)))"
    by (simp add: performCallAndReadResponse_def assms(1) l Let_def split: option.splits sum.splits)
  show "trace (snd (performCallAndReadResponse w req data)) =
           pre @ [AddAuthHeaders] @ retried_events w b k @
           [Send k (if k = 0 then b else []), CloseBody k]"
    by (simp add: performCallAndReadResponse_def assms(1) l Let_def deferred_close_def
        split: option.splits sum.splits) (simp add: initial_state_def)
  show "success (snd (performCallAndReadResponse w req data))"
    by (simp add: performCallAndReadResponse_def assms(1) l Let_def deferred_close_def
        split: option.splits sum.splits)
qed

lemma perform_exhausted:
  assumes "read_request_body (ReqBody req) = Inr (b, pre)"
    and "\<forall>j<10. retried w j"
  shows "fst (performCallAndReadResponse w req data) = Inl RetryLimitExceeded"
    and "trace (snd (performCallAndReadResponse w req data)) =
           pre @ [AddAuthHeaders] @ retried_events w b 10 @ [CloseBody 9]"
proof -
  let ?s = "initial_state b (pre @ [AddAuthHeaders])"
  have s: "clock ?s = 0" "b_attempt ?s = 0" by (simp_all add: initial_state_def)
  note l = loop_exhausted [OF s assms(2)]
  note inv = after_retries_invariant [OF s assms(2)]
  from inv obtain r where r: "res (after_retries w ?s 10) = Some (9, r)" by auto
  show "fst (performCallAndReadResponse w req data) = Inl RetryLimitExceeded"
    using inv by (simp add: performCallAndReadResponse_def assms(1) l) (simp add: initial_state_def)
  show "trace (snd (performCallAndReadResponse w req data)) =
           pre @ [AddAuthHeaders] @ retried_events w b 10 @ [CloseBody 9]"
    using inv r
    by (simp add: performCallAndReadResponse_def assms(1) l deferred_close_def
        del: retried_events.simps after_retries.simps)
       (simp add: initial_state_def)
qed

lemma perform_exhausted_clock:
  assumes "read_request_body (ReqBody req) = Inr (b, pre)"
    and "\<forall>j<10. retried w j"
  shows "clock (snd (performCallAndReadResponse w req data)) = attempt_time w 10"
proof -
  let ?s = "initial_state b (pre @ [AddAuthHeaders])"
  have s: "clock ?s = 0" "b_attempt ?s = 0" by (simp_all add: initial_state_def)
  note l = loop_exhausted [OF s assms(2)]
  note inv = after_retries_invariant [OF s assms(2)]
  show ?thesis
    using inv
    by (simp add: performCallAndReadResponse_def assms(1) l deferred_close_def
        split: option.splits del: attempt_time.simps after_retries.simps)
       (simp add: initial_state_def)
qed

lemma count_closes_retried_events:
  "count_list (retried_events w b k) (CloseBody j) = (if j < k then 1 else 0)"
  by (induction k) (auto simp: less_Suc_eq)

lemma attempt_trace:
  "\<exists>ev. trace (snd (attempt w i s)) = trace s @ Send i (req_unread s) # ev \<and>
        AddAuthHeaders \<notin> set ev \<and> ReadRequestBody \<notin> set ev"
  by (simp add: attempt_def Let_def split: sum.splits)

lemma retry_loop_trace:
  "\<exists>ev. trace (snd (retry_loop w i s)) = trace s @ ev \<and>
        AddAuthHeaders \<notin> set ev \<and> ReadRequestBody \<notin> set ev"
proof (induction w i s rule: retry_loop.induct)
  case (1 w i s)
  show ?case
  proof (cases "i < 10")
    case False
    then show ?thesis by (subst retry_loop.simps) simp
  next
    case True
    obtain st s' where a: "attempt w i s = (st, s')" by (cases "attempt w i s")
    from attempt_trace [of w i s] a obtain ev where
      ev: "trace s' = trace s @ Send i (req_unread s) # ev" "AddAuthHeaders \<notin> set ev"
      "ReadRequestBody \<notin> set ev"
      by auto
    show ?thesis
    proof (cases st)
      case (Return e)
      then show ?thesis using True a ev by (subst retry_loop.simps) simp
    next
      case Break
      then show ?thesis using True a ev by (subst retry_loop.simps) simp
    next
      case Continue
      from "1.IH" [OF True a [symmetric] Continue] obtain ev' where
        "trace (snd (retry_loop w (Suc i) s')) = trace s' @ ev'" "AddAuthHeaders \<notin> set ev'"
        "ReadRequestBody \<notin> set ev'"
        by auto
      then show ?thesis using True a ev Continue by (subst retry_loop.simps) simp
    qed
  qed
qed

lemma retry_loop_first_send:
  "\<exists>ev. trace (snd (retry_loop w 0 s)) = trace s @ Send 0 (req_unread s) # ev \<and>
        AddAuthHeaders \<notin> set ev \<and> ReadRequestBody \<notin> set ev"
proof -
  obtain st s' where a: "attempt w 0 s = (st, s')" by (cases "attempt w 0 s")
  from attempt_trace [of w 0 s] a obtain ev where
    ev: "trace s' = trace s @ Send 0 (req_unread s) # ev" "AddAuthHeaders \<notin> set ev"
    "ReadRequestBody \<notin> set ev"
    by auto
  show ?thesis
  proof (cases st)
    case (Return e)
    then show ?thesis using a ev by (subst retry_loop.simps) simp
  next
    case Break
    then show ?thesis using a ev by (subst retry_loop.simps) simp
  next
    case Continue
    from retry_loop_trace [of w "Suc 0" s'] obtain ev' where
      "trace (snd (retry_loop w (Suc 0) s')) = trace s' @ ev'" "AddAuthHeaders \<notin> set ev'"
      "ReadRequestBody \<notin> set ev'"
      by auto
    then show ?thesis using a ev Continue by (subst retry_loop.simps) simp
  qed
qed

lemma perform_trace_shape:
  assumes "read_request_body (ReqBody req) = Inr (b, pre)"
  shows "\<exists>ev. trace (snd (performCallAndReadResponse w req data)) =
               pre @ AddAuthHeaders # Send 0 b # ev \<and>
             AddAuthHeaders \<notin> set ev \<and> ReadRequestBody \<notin> set ev"
proof -
  let ?s = "initial_state b (pre @ [AddAuthHeaders])"
  obtain e s1 where l: "retry_loop w 0 ?s = (e, s1)" by (cases "retry_loop w 0 ?s")
  from retry_loop_first_send [of w ?s] l obtain ev where
    ev: "trace s1 = pre @ AddAuthHeaders # Send 0 b # ev" "AddAuthHeaders \<notin> set ev"
    "ReadRequestBody \<notin> set ev"
    by (auto simp: initial_state_def)
  obtain ev' where t: "trace (snd (performCallAndReadResponse w req data)) = trace s1 @ ev'"
    and ev': "AddAuthHeaders \<notin> set ev'" "ReadRequestBody \<notin> set ev'"
  proof (cases e)
    case (Some x)
    then have "trace (snd (performCallAndReadResponse w req data)) = trace s1 @ []"
      by (simp add: performCallAndReadResponse_def assms(1) l)
    then show ?thesis using that by simp
  next
    case None
    then have "trace (snd (performCallAndReadResponse w req data)) =
        trace (deferred_close (res s1) s1)"
      by (simp add: performCallAndReadResponse_def assms(1) l Let_def split: option.splits sum.splits)
    also have "\<dots> = trace s1 @ (case res s1 of None \<Rightarrow> [] | Some (i, _) \<Rightarrow> [CloseBody i])"
      by (simp add: deferred_close_def split: option.splits)
    finally show ?thesis using that [of "case res s1 of None \<Rightarrow> [] | Some (i, _) \<Rightarrow> [CloseBody i]"]
      by (auto split: option.splits)
  qed
  show ?thesis using ev ev' by (simp add: t)
qed

lemma perform_ready:
  assumes "read_request_body (ReqBody req) = Inr (b, pre)"
    and "httpClient_Do w 0 0 = Inr r" and "StatusCode r < 300" and "decode (Body r) = Inr v"
  shows "fst (performCallAndReadResponse w req (Some decode)) = Inr (Some v)"
proof -
  have o: "outcome w 0 = Inr r" using assms(2) by (simp add: outcome_def)
  have k: "(0::nat) < 10" by simp
  have n: "\<forall>j<0. retried w j" by simp
  show ?thesis
    using perform_success(1) [OF assms(1) k n o assms(3), of "Some decode"] assms(4) by simp
qed

text \<open>The example worlds, as far as the theorems below need them.\<close>

lemma busy_world_retried: "retried busy_world j"
  by (simp add: retried_def outcome_def busy_world_def httpClient_Do_def ctx_done_def response_def)

lemma recovering_world_retried: "j < 1 \<Longrightarrow> retried recovering_world j"
  by (simp add: retried_def outcome_def recovering_world_def httpClient_Do_def ctx_done_def response_def)

lemma refusing_world_retried: "j < 2 \<Longrightarrow> retried refusing_world j"
  by (simp add: retried_def outcome_def refusing_world_def httpClient_Do_def ctx_done_def response_def)

lemma cancelled_world_retried: "retried cancelled_world 0"
  by (simp add: retried_def outcome_def cancelled_world_def busy_world_def httpClient_Do_def ctx_done_def response_def)

lemma late_cancelled_world_time:
  "j \<le> 10 \<Longrightarrow> attempt_time late_cancelled_world j = int j * 100000000"
  by (induction j)
     (simp_all add: late_cancelled_world_def busy_world_def httpClient_Do_def ctx_done_def
        waitTime_def response_def)

lemma late_cancelled_world_retried: "j < 10 \<Longrightarrow> retried late_cancelled_world j"
  using late_cancelled_world_time [of j]
  by (simp add: retried_def outcome_def httpClient_Do_def ctx_done_def)
     (simp add: late_cancelled_world_def busy_world_def response_def)

section \<open>Properties of the executor\<close>

subsection \<open>The request body on a retry\<close>

text \<open>
  A request with a readable body \<open>b\<close> has it read exactly once, as the first thing the
  call does.
\<close>

lemma request_body_read_once:
  assumes "ReqBody req = Some rd" and "ReadAll rd = Inr b"
  shows "count_list (trace (snd (performCallAndReadResponse w req data))) ReadRequestBody = 1 \<and>
         (\<exists>ev. trace (snd (performCallAndReadResponse w req data)) =
                 ReadRequestBody # AddAuthHeaders # Send 0 b # ev)"
proof -
  have r: "read_request_body (ReqBody req) = Inr (b, [ReadRequestBody])"
    using assms by (simp add: read_request_body_def)
  from perform_trace_shape [OF r, of w data] obtain ev where
    t: "trace (snd (performCallAndReadResponse w req data)) =
          [ReadRequestBody] @ AddAuthHeaders # Send 0 b # ev"
    and ev: "ReadRequestBody \<notin> set ev"
    by auto
  have "count_list (trace (snd (performCallAndReadResponse w req data))) ReadRequestBody = 1"
    using ev by (simp add: t count_list_0_iff)
  then show ?thesis using t by simp
qed

text \<open>
  Only the first send of a call finds the body in the request: in a call that succeeds
  at send \<open>k\<close>, every send after the first presents no bytes.
\<close>

lemma retries_present_no_body:
  assumes "read_request_body (ReqBody req) = Inr (b, pre)"
    and "k < 10" and "\<forall>j<k. retried w j" and "outcome w k = Inr r" and "StatusCode r < 300"
  shows "sends (trace (snd (performCallAndReadResponse w req data))) =
           map (\<lambda>j. (j, if j = 0 then b else [])) [0..<Suc k]"
proof -
  have pre: "sends pre = []"
    using read_request_body_events [OF assms(1)] by auto
  show ?thesis
    by (simp add: perform_success(2) [OF assms] sends_append sends_retried_events pre)
qed

text \<open>
  Claim C1. The body of the request is read into memory once, before the loop, and is put
  back into \<^verbatim>\<open>req.Body\<close> once, before the loop. The first send reads it to its end, and
  no pass through the loop puts it back: for the request with body \<open>x\<close> and a backend
  that answers 500 and then 200, the first send presents the byte \<open>x\<close> and the second
  send presents no bytes at all.
\<close>

theorem retry_presents_drained_body:
  "read_request_body (ReqBody post_x) = Inr (''x'', [ReadRequestBody]) \<and>
   sends (trace (snd (performCallAndReadResponse recovering_world post_x (Some accept))))
     = [(0, ''x''), (1, [])]"
  by (simp add: performCallAndReadResponse_def read_request_body_def ReadAll_def post_x_def
      initial_state_def retry_loop.simps attempt_def httpClient_Do_def ctx_done_def
      recovering_world_def
      response_def waitTime_def deferred_close_def accept_def)

subsection \<open>The authentication headers\<close>

text \<open>
  Claim C2, as amended. In every call that gets as far as reading the request body,
  \<^verbatim>\<open>AddAuthHeaders\<close> is invoked exactly once: after the body has been read and right before
  the first send. No later send of the call is preceded by another invocation.
\<close>

theorem auth_headers_added_once:
  assumes "read_request_body (ReqBody req) = Inr (b, pre)"
  shows "count_list (trace (snd (performCallAndReadResponse w req data))) AddAuthHeaders = 1 \<and>
         (\<exists>ev. trace (snd (performCallAndReadResponse w req data)) =
                 pre @ AddAuthHeaders # Send 0 b # ev)"
proof -
  from perform_trace_shape [OF assms, of w data] obtain ev where
    t: "trace (snd (performCallAndReadResponse w req data)) = pre @ AddAuthHeaders # Send 0 b # ev"
    and ev: "AddAuthHeaders \<notin> set ev"
    by auto
  have pre: "AddAuthHeaders \<notin> set pre"
    using read_request_body_events [OF assms] by auto
  have "count_list (trace (snd (performCallAndReadResponse w req data))) AddAuthHeaders = 1"
    using pre ev by (simp add: t count_list_0_iff)
  then show ?thesis using t by simp
qed

theorem auth_headers_added_once_witness:
  "count_list (trace (snd (performCallAndReadResponse recovering_world post_x (Some accept)))) AddAuthHeaders = 1 \<and>
   (\<exists>ev. trace (snd (performCallAndReadResponse recovering_world post_x (Some accept))) =
                 [ReadRequestBody] @ AddAuthHeaders # Send 0 ''x'' # ev)"
proof -
  have b: "read_request_body (ReqBody post_x) = Inr (''x'', [ReadRequestBody])"
    by (simp add: read_request_body_def post_x_def ReadAll_def)
  show ?thesis
    using auth_headers_added_once [OF b, of recovering_world "Some accept"] .
qed

text \<open>
  The claim as stated fails as soon as there is a retry: with a backend that answers 500
  and then 200, the second send comes right after the sleep.
\<close>

theorem retry_send_without_auth:
  "trace (snd (performCallAndReadResponse recovering_world post_x (Some accept))) =
     [ReadRequestBody, AddAuthHeaders, Send 0 ''x'', ReadResponseBody 0, CloseBody 0,
      Sleep 100000000, Send 1 [], CloseBody 1] \<and>
   \<not> auth_before_every_send
       (trace (snd (performCallAndReadResponse recovering_world post_x (Some accept))))"
  by (simp add: performCallAndReadResponse_def read_request_body_def ReadAll_def post_x_def
      initial_state_def retry_loop.simps attempt_def httpClient_Do_def ctx_done_def
      recovering_world_def
      response_def waitTime_def deferred_close_def accept_def)

subsection \<open>Ten answers with a status of 300 or more\<close>

text \<open>
  Claim C3. When the request body can be read and each of the ten sends obtains a response
  with a status of 300 or more (so that no send fails in the transport),
  \<^verbatim>\<open>performCallAndReadResponse\<close> returns the error "Retry limit exceeded", and the sends of
  the call are exactly the ten sends numbered 0 to 9.
\<close>

theorem retry_limit_after_ten_attempts:
  assumes "read_request_body (ReqBody req) = Inr (b, pre)"
    and "\<forall>j<10. retried w j"
  shows "fst (performCallAndReadResponse w req data) = Inl RetryLimitExceeded \<and>
         length (sends (trace (snd (performCallAndReadResponse w req data)))) = 10 \<and>
         map fst (sends (trace (snd (performCallAndReadResponse w req data)))) = [0..<10]"
proof -
  note e = perform_exhausted [OF assms]
  have pre: "sends pre = []"
    using read_request_body_events [OF assms(1)] by auto
  have "map fst (sends (trace (snd (performCallAndReadResponse w req data)))) =
      map fst (map (\<lambda>j. (j, if j = 0 then b else [])) [0..<10])"
    by (simp add: e(2) sends_append sends_retried_events pre del: retried_events.simps)
  also have "\<dots> = [0..<10]" by (simp add: comp_def)
  finally have m: "map fst (sends (trace (snd (performCallAndReadResponse w req data)))) = [0..<10]" .
  from arg_cong [OF m, of length]
  have "length (sends (trace (snd (performCallAndReadResponse w req data)))) = 10"
    by simp
  with e(1) m show ?thesis by (intro conjI)
qed

theorem retry_limit_after_ten_attempts_witness:
  "read_request_body (ReqBody post_x) = Inr (''x'', [ReadRequestBody]) \<and>
   fst (performCallAndReadResponse busy_world post_x (None :: (bytes \<Rightarrow> string + bytes) option))
     = Inl RetryLimitExceeded \<and>
   length (sends (trace (snd (performCallAndReadResponse busy_world post_x
     (None :: (bytes \<Rightarrow> string + bytes) option))))) = 10 \<and>
   map fst (sends (trace (snd (performCallAndReadResponse busy_world post_x
     (None :: (bytes \<Rightarrow> string + bytes) option))))) = [0..<10]"
proof -
  have b: "read_request_body (ReqBody post_x) = Inr (''x'', [ReadRequestBody])"
    by (simp add: read_request_body_def post_x_def ReadAll_def)
  have r: "\<forall>j<10. retried busy_world j"
    by (simp add: busy_world_retried)
  show ?thesis
    using retry_limit_after_ten_attempts [OF b r, of "None :: (bytes \<Rightarrow> string + bytes) option"] b
    by simp
qed

subsection \<open>Success after retries\<close>

text \<open>
  Claim C4, as amended. Let the request body be readable, let the sends numbered below
  \<open>k\<close> obtain statuses of 300 or more, and let send \<open>k\<close>, with \<open>k < 10\<close>, obtain a
  response \<open>r\<close> with a status below 300. Then the call makes exactly the \<open>k + 1\<close> sends
  numbered 0 to \<open>k\<close> and leaves the loop with \<open>success\<close> set. Without a target it returns
  no error; with a target it returns what the decoder makes of the body of \<open>r\<close>: the
  decoded value and no error, or, when the decoder fails, the error "Failed to read the
  response". Every earlier send, whatever its status of 300 or more, is followed by one
  sleep and the next send; the sleep is the backoff generator's duration unless the
  status is 429, where the \<open>retry-after\<close> header can set it.
\<close>

theorem success_after_retries:
  assumes "read_request_body (ReqBody req) = Inr (b, pre)"
    and "k < 10" and "\<forall>j<k. retried w j" and "outcome w k = Inr r" and "StatusCode r < 300"
  shows "fst (performCallAndReadResponse w req data) =
           (case data of
              None \<Rightarrow> Inr None
            | Some decode \<Rightarrow>
                (case decode (Body r) of
                   Inl e \<Rightarrow> Inl (FailedReadResponse e)
                 | Inr v \<Rightarrow> Inr (Some v))) \<and>
         success (snd (performCallAndReadResponse w req data)) \<and>
         map fst (sends (trace (snd (performCallAndReadResponse w req data)))) = [0..<Suc k] \<and>
         sleeps (trace (snd (performCallAndReadResponse w req data))) = map (wait w) [0..<k] \<and>
         (\<forall>j<k. \<forall>r'. outcome w j = Inr r' \<longrightarrow> StatusCode r' \<noteq> 429 \<longrightarrow>
                  wait w j = b_Duration w j)"
proof -
  note p = perform_success [OF assms]
  have pre: "sends pre = []" "sleeps pre = []"
    using read_request_body_events [OF assms(1)] by auto
  have "map fst (sends (trace (snd (performCallAndReadResponse w req data)))) =
      map fst (map (\<lambda>j. (j, if j = 0 then b else [])) [0..<k]) @ [k]"
    by (simp add: p(2) sends_append sends_retried_events pre)
  also have "\<dots> = [0..<Suc k]" by (simp add: comp_def)
  finally have s: "map fst (sends (trace (snd (performCallAndReadResponse w req data)))) = [0..<Suc k]" .
  have "sleeps (trace (snd (performCallAndReadResponse w req data))) = map (wait w) [0..<k]"
    by (simp add: p(2) sleeps_append sleeps_retried_events pre)
  moreover have "\<forall>j<k. \<forall>r'. outcome w j = Inr r' \<longrightarrow> StatusCode r' \<noteq> 429 \<longrightarrow>
      wait w j = b_Duration w j"
    by (simp add: wait_def waitTime_def)
  ultimately show ?thesis using s p(1) p(3) by (intro conjI)
qed

theorem success_after_retries_witness:
  "outcome recovering_world 1 = Inr (response 200 ''done'') \<and>
   fst (performCallAndReadResponse recovering_world post_x (Some accept)) = Inr (Some ''done'') \<and>
   success (snd (performCallAndReadResponse recovering_world post_x (Some accept))) \<and>
   map fst (sends (trace (snd (performCallAndReadResponse recovering_world post_x (Some accept))))) = [0, 1] \<and>
   sleeps (trace (snd (performCallAndReadResponse recovering_world post_x (Some accept)))) = [100000000]"
proof -
  have b: "read_request_body (ReqBody post_x) = Inr (''x'', [ReadRequestBody])"
    by (simp add: read_request_body_def post_x_def ReadAll_def)
  have k: "(1::nat) < 10" by simp
  have r: "\<forall>j<1. retried recovering_world j"
    by (simp add: recovering_world_retried)
  have o: "outcome recovering_world 1 = Inr (response 200 ''done'')"
    by (simp add: outcome_def recovering_world_def httpClient_Do_def ctx_done_def)
  have c: "StatusCode (response 200 ''done'') < 300"
    by (simp add: response_def)
  have w0: "wait recovering_world 0 = 100000000"
    by (simp add: wait_def outcome_def recovering_world_def httpClient_Do_def ctx_done_def
        waitTime_def response_def)
  have u: "[0..<Suc 1] = [0, 1]" by (simp add: upt_rec)
  show ?thesis
    using success_after_retries [OF b k r o c, of "Some accept"] o u w0
    by (simp add: accept_def response_def)
qed

text \<open>
  The claim as stated promises a return without error for every such sequence. A
  response with status 200 whose body the decoder rejects is returned as an error.
\<close>

theorem undecodable_body_is_an_error:
  "outcome ready_world 0 = Inr (response 200 ''done'') \<and>
   StatusCode (response 200 ''done'') < 300 \<and>
   fst (performCallAndReadResponse ready_world post_x (Some reject))
     = Inl (FailedReadResponse ''invalid character'')"
  by (simp add: performCallAndReadResponse_def read_request_body_def ReadAll_def post_x_def
      initial_state_def retry_loop.simps attempt_def httpClient_Do_def ctx_done_def
      ready_world_def outcome_def
      response_def waitTime_def deferred_close_def reject_def)

subsection \<open>The wait after a 429\<close>

lemma seconds_in_range:
  assumes "- 9223372036 \<le> n" and "n \<le> 9223372036"
  shows "sint (word_of_int n * Second) = n * 1000000000"
proof -
  have "word_of_int n * Second = (word_of_int (n * 1000000000) :: 64 word)"
    by (simp add: Second_def)
  moreover have "sint (word_of_int (n * 1000000000) :: 64 word) =
      signed_take_bit 63 (n * 1000000000)"
    by (simp only: sint_sbintrunc') simp
  moreover have "signed_take_bit 63 (n * 1000000000) = n * 1000000000"
    using assms by (intro signed_take_bit_int_eq_self) simp_all
  ultimately show ?thesis by (simp only:)
qed

text \<open>
  Claim C5, as amended. A pass through the loop whose send obtains status 429 ends in
  \<^verbatim>\<open>continue\<close> after exactly one call of \<^verbatim>\<open>time.Sleep\<close>, with a duration \<open>d\<close>, and the time
  the call spends asleep there is \<open>d\<close> when \<open>d\<close> is positive and nothing otherwise. When
  \<^verbatim>\<open>strconv.Atoi\<close> reads the \<open>retry-after\<close> header as \<open>n\<close> and \<open>n\<close> seconds fit into a
  \<^verbatim>\<open>time.Duration\<close>, that is \<open>-9223372036 \<le> n \<le> 9223372036\<close>, then the duration handed to
  \<^verbatim>\<open>time.Sleep\<close> is exactly \<open>n\<close> seconds, whatever the backoff generator returned: the call
  sleeps exactly \<open>n\<close> seconds when \<open>n\<close> is not negative, and does not sleep at all when
  \<open>n\<close> is negative. When the header is absent, empty or not read as an integer by
  \<^verbatim>\<open>strconv.Atoi\<close>, the duration handed to \<^verbatim>\<open>time.Sleep\<close> is the one the backoff generator
  returned for this pass.
\<close>

theorem rate_limit_wait:
  assumes "httpClient_Do w i (clock s) = Inr r" and "StatusCode r = 429"
  shows "fst (attempt w i s) = Continue \<and>
    (\<exists>d. sleeps (trace (snd (attempt w i s))) = sleeps (trace s) @ [d] \<and>
         clock (snd (attempt w i s)) = clock s + max 0 (sint d) \<and>
         (case Atoi (Header_Get (Header r) ''retry-after'') of
            None \<Rightarrow> d = b_Duration w (b_attempt s)
          | Some n \<Rightarrow>
              - 9223372036 \<le> n \<and> n \<le> 9223372036 \<longrightarrow>
                sint d = n * 1000000000 \<and>
                clock (snd (attempt w i s)) = clock s + max 0 (n * 1000000000)))"
proof -
  let ?d = "waitTime (b_Duration w (b_attempt s)) r"
  have r: "300 \<le> StatusCode r" using assms(2) by simp
  have empty: "Atoi [] = None" by (simp add: Atoi_def)
  have "case Atoi (Header_Get (Header r) ''retry-after'') of
            None \<Rightarrow> ?d = b_Duration w (b_attempt s)
          | Some n \<Rightarrow>
              - 9223372036 \<le> n \<and> n \<le> 9223372036 \<longrightarrow> sint ?d = n * 1000000000"
    using assms(2) empty
    by (cases "Header_Get (Header r) ''retry-after'' = []")
       (auto simp: waitTime_def Let_def seconds_in_range split: option.splits)
  then show ?thesis
    by (auto simp: attempt_retried [OF assms(1) r] sleeps_append split: option.splits)
qed

theorem rate_limit_wait_witness:
  "Atoi ''5'' = Some 5 \<and>
   map sint (sleeps (trace (snd (attempt (throttled_world ''5'') 0 (initial_state [] []))))) = [5000000000] \<and>
   clock (snd (attempt (throttled_world ''5'') 0 (initial_state [] []))) = 5000000000"
proof -
  have d: "httpClient_Do (throttled_world ''5'') 0 (clock (initial_state [] [])) = Inr (rate_limited ''5'')"
    by (simp add: httpClient_Do_def ctx_done_def throttled_world_def)
  have c: "StatusCode (rate_limited ''5'') = 429"
    by (simp add: rate_limited_def)
  have a: "Atoi (Header_Get (Header (rate_limited ''5'')) ''retry-after'') = Some 5"
    by (simp add: rate_limited_def Header_Get_def Atoi_def digit_def)
  have e: "Atoi ''5'' = Some 5"
    by (simp add: Atoi_def digit_def)
  show ?thesis
    using rate_limit_wait [OF d c] a e
    by (auto simp: initial_state_def)
qed

text \<open>
  A negative header value: \<open>retry-after: -5\<close> hands minus five seconds to
  \<^verbatim>\<open>time.Sleep\<close>, which returns at once.
\<close>

lemma negative_retry_after:
  "Atoi ''-5'' = Some (- 5) \<and>
   map sint (sleeps (trace (snd (attempt (throttled_world ''-5'') 0 (initial_state [] []))))) = [- 5000000000] \<and>
   clock (snd (attempt (throttled_world ''-5'') 0 (initial_state [] []))) = 0"
  by (simp add: Atoi_def digit_def attempt_def httpClient_Do_def ctx_done_def throttled_world_def
      rate_limited_def waitTime_def Header_Get_def initial_state_def Second_def)

text \<open>
  The claim as stated fails for a header value whose seconds do not fit into 64 bits of
  nanoseconds: \<open>retry-after: 9223372037\<close> is read as the integer 9223372037, and the
  multiplication by \<^verbatim>\<open>time.Second\<close> wraps around to a negative duration.
\<close>

theorem rate_limit_overflow:
  "Atoi ''9223372037'' = Some 9223372037 \<and>
   map sint (sleeps (trace (snd (attempt (throttled_world ''9223372037'') 0 (initial_state [] [])))))
     = [- 9223372036709551616]"
  by (simp add: Atoi_def digit_def attempt_def httpClient_Do_def ctx_done_def throttled_world_def
      rate_limited_def waitTime_def Header_Get_def initial_state_def Second_def)

subsection \<open>A send that fails in the transport\<close>

text \<open>
  Claim C6. Let the request body be readable, let the sends numbered below \<open>k\<close> obtain
  statuses of 300 or more, and let send \<open>k\<close>, with \<open>k < 10\<close>, fail in the transport with
  the error \<open>cause\<close>. Then the call returns the error "Failed call" with that cause, and
  the failed send is the last thing it does: no sleep and no further send follow it. The
  sends of the call are those numbered 0 to \<open>k\<close>, and its sleeps are the \<open>k\<close> sleeps that
  followed the earlier sends.
\<close>

theorem transport_failure_ends_call:
  assumes "read_request_body (ReqBody req) = Inr (b, pre)"
    and "k < 10" and "\<forall>j<k. retried w j" and "outcome w k = Inl cause"
  shows "fst (performCallAndReadResponse w req data) = Inl (FailedCall cause) \<and>
         last (trace (snd (performCallAndReadResponse w req data))) = Send k (if k = 0 then b else []) \<and>
         map fst (sends (trace (snd (performCallAndReadResponse w req data)))) = [0..<Suc k] \<and>
         sleeps (trace (snd (performCallAndReadResponse w req data))) = map (wait w) [0..<k]"
proof -
  note f = perform_failed_send [OF assms]
  have pre: "sends pre = []" "sleeps pre = []"
    using read_request_body_events [OF assms(1)] by auto
  have "map fst (sends (trace (snd (performCallAndReadResponse w req data)))) =
      map fst (map (\<lambda>j. (j, if j = 0 then b else [])) [0..<k]) @ [k]"
    by (simp add: f(2) sends_append sends_retried_events pre)
  also have "\<dots> = [0..<Suc k]" by (simp add: comp_def)
  finally have s: "map fst (sends (trace (snd (performCallAndReadResponse w req data)))) = [0..<Suc k]" .
  have "sleeps (trace (snd (performCallAndReadResponse w req data))) = map (wait w) [0..<k]"
    by (simp add: f(2) sleeps_append sleeps_retried_events pre)
  then show ?thesis using s by (simp add: f(1) f(2))
qed

theorem transport_failure_ends_call_witness:
  "outcome refusing_world 2 = Inl ''connection refused'' \<and>
   fst (performCallAndReadResponse refusing_world post_x (Some accept)) = Inl (FailedCall ''connection refused'') \<and>
   last (trace (snd (performCallAndReadResponse refusing_world post_x (Some accept)))) = Send 2 [] \<and>
   map fst (sends (trace (snd (performCallAndReadResponse refusing_world post_x (Some accept))))) = [0, 1, 2] \<and>
   length (sleeps (trace (snd (performCallAndReadResponse refusing_world post_x (Some accept))))) = 2"
proof -
  have b: "read_request_body (ReqBody post_x) = Inr (''x'', [ReadRequestBody])"
    by (simp add: read_request_body_def post_x_def ReadAll_def)
  have k: "(2::nat) < 10" by simp
  have r: "\<forall>j<2. retried refusing_world j"
    by (simp add: refusing_world_retried)
  have o: "outcome refusing_world 2 = Inl ''connection refused''"
    by (simp add: outcome_def refusing_world_def httpClient_Do_def ctx_done_def)
  have u: "[0..<Suc 2] = [0, 1, 2]" by (simp add: upt_rec)
  show ?thesis
    using transport_failure_ends_call [OF b k r o, of "Some accept"] o u
    by simp
qed

subsection \<open>Closing the response bodies\<close>

text \<open>
  How often the body of the response to send \<open>j\<close> is closed, by the way the call ends:
  once for every response obtained when the call succeeds at send \<open>k\<close> (also when the
  decoder then fails) or when send \<open>k\<close> fails in the transport; when the retry limit is
  reached, once for the first nine responses and twice for the tenth.
\<close>

lemma closes_on_success:
  assumes "read_request_body (ReqBody req) = Inr (b, pre)"
    and "k < 10" and "\<forall>j<k. retried w j" and "outcome w k = Inr r" and "StatusCode r < 300"
  shows "count_list (trace (snd (performCallAndReadResponse w req data))) (CloseBody j) =
           (if j \<le> k then 1 else 0)"
proof -
  have pre: "count_list pre (CloseBody j) = 0"
    using read_request_body_events [OF assms(1)] by auto
  show ?thesis
    by (simp add: perform_success(2) [OF assms] count_closes_retried_events pre)
qed

lemma closes_on_failed_send:
  assumes "read_request_body (ReqBody req) = Inr (b, pre)"
    and "k < 10" and "\<forall>j<k. retried w j" and "outcome w k = Inl e"
  shows "count_list (trace (snd (performCallAndReadResponse w req data))) (CloseBody j) =
           (if j < k then 1 else 0)"
proof -
  have pre: "count_list pre (CloseBody j) = 0"
    using read_request_body_events [OF assms(1)] by auto
  show ?thesis
    by (simp add: perform_failed_send(2) [OF assms] count_closes_retried_events pre)
qed

lemma closes_on_retry_limit:
  assumes "read_request_body (ReqBody req) = Inr (b, pre)"
    and "\<forall>j<10. retried w j"
  shows "count_list (trace (snd (performCallAndReadResponse w req data))) (CloseBody j) =
           (if j < 9 then 1 else if j = 9 then 2 else 0)"
proof -
  have pre: "count_list pre (CloseBody j) = 0"
    using read_request_body_events [OF assms(1)] by auto
  show ?thesis
    by (simp add: perform_exhausted(2) [OF assms] count_closes_retried_events pre
        del: retried_events.simps)
qed

text \<open>
  Claim C7. When all ten sends are answered with status 500, the body of the last response
  is closed inside the loop (line 499) and once more by the deferred function (line 539):
  it is closed twice.
\<close>

theorem last_body_closed_twice:
  "fst (performCallAndReadResponse busy_world post_x (Some accept)) = Inl RetryLimitExceeded \<and>
   count_list (trace (snd (performCallAndReadResponse busy_world post_x (Some accept)))) (CloseBody 9) = 2"
  by (simp add: performCallAndReadResponse_def read_request_body_def ReadAll_def post_x_def
      initial_state_def retry_loop.simps attempt_def httpClient_Do_def ctx_done_def
      busy_world_def
      response_def waitTime_def deferred_close_def accept_def)

subsection \<open>Cancellation during a sleep\<close>

text \<open>
  Claim C9, as amended. Let the context of the request be cancelled at a time \<open>c\<close> that
  falls into the sleep after send \<open>k\<close>, for any of the ten sends. The sleep is not cut
  short: the call goes on sleeping for the whole duration. After one of the first nine
  sends it then issues send \<open>k + 1\<close>, which fails on the cancelled context, and returns
  the error "Failed call" that every failure of the transport produces; that send is the
  last thing the call does. After the tenth send there is no further send, and the call
  returns the error "Retry limit exceeded". In neither case is there an outcome of its
  own for the cancellation.
\<close>

theorem cancellation_during_sleep:
  assumes "read_request_body (ReqBody req) = Inr (b, pre)"
    and "k < 10" and "\<forall>j<Suc k. retried w j"
    and "ctx_done_at w = Some c" and "attempt_time w k < c" and "c \<le> attempt_time w (Suc k)"
  shows "clock (snd (performCallAndReadResponse w req data)) = attempt_time w k + max 0 (sint (wait w k)) \<and>
         sleeps (trace (snd (performCallAndReadResponse w req data))) = map (wait w) [0..<Suc k] \<and>
         (if k < 9
          then fst (performCallAndReadResponse w req data) = Inl (FailedCall ''context canceled'') \<and>
               last (trace (snd (performCallAndReadResponse w req data))) = Send (Suc k) [] \<and>
               map fst (sends (trace (snd (performCallAndReadResponse w req data)))) = [0..<Suc (Suc k)]
          else fst (performCallAndReadResponse w req data) = Inl RetryLimitExceeded \<and>
               last (trace (snd (performCallAndReadResponse w req data))) = CloseBody 9 \<and>
               map fst (sends (trace (snd (performCallAndReadResponse w req data)))) = [0..<10])"
proof -
  have pre: "sleeps pre = []" "sends pre = []"
    using read_request_body_events [OF assms(1)] by auto
  have "retried w k" using assms(3) by simp
  then have t: "attempt_time w (Suc k) = attempt_time w k + max 0 (sint (wait w k))"
    by (auto simp: retried_def wait_def outcome_def split: sum.splits)
  show ?thesis
  proof (cases "k < 9")
    case True
    have o: "outcome w (Suc k) = Inl ''context canceled''"
      using assms(4,6) by (simp add: outcome_def httpClient_Do_def ctx_done_def del: attempt_time.simps)
    have k: "Suc k < 10" using True by simp
    note f = perform_failed_send [OF assms(1) k assms(3) o]
    have sl: "sleeps (trace (snd (performCallAndReadResponse w req data))) = map (wait w) [0..<Suc k]"
      by (simp add: f(2) sleeps_append sleeps_retried_events pre del: retried_events.simps)
    have "map fst (sends (trace (snd (performCallAndReadResponse w req data)))) =
        map fst (map (\<lambda>j. (j, if j = 0 then b else [])) [0..<Suc k]) @ [Suc k]"
      by (simp add: f(2) sends_append sends_retried_events pre del: retried_events.simps)
    also have "\<dots> = [0..<Suc (Suc k)]" by (simp add: comp_def)
    finally have sn: "map fst (sends (trace (snd (performCallAndReadResponse w req data)))) =
        [0..<Suc (Suc k)]" .
    have cl: "clock (snd (performCallAndReadResponse w req data)) =
        attempt_time w k + max 0 (sint (wait w k))"
      using t by (simp only: f(3))
    have la: "last (trace (snd (performCallAndReadResponse w req data))) = Send (Suc k) []"
      by (simp add: f(2))
    from cl sl f(1) la sn
    have "clock (snd (performCallAndReadResponse w req data)) = attempt_time w k + max 0 (sint (wait w k)) \<and>
         sleeps (trace (snd (performCallAndReadResponse w req data))) = map (wait w) [0..<Suc k] \<and>
         (fst (performCallAndReadResponse w req data) = Inl (FailedCall ''context canceled'') \<and>
          last (trace (snd (performCallAndReadResponse w req data))) = Send (Suc k) [] \<and>
          map fst (sends (trace (snd (performCallAndReadResponse w req data)))) = [0..<Suc (Suc k)])"
      by (intro conjI)
    then show ?thesis using True by (simp only: if_True)
  next
    case False
    with assms(2) have k9: "k = 9" by simp
    from assms(3) k9 have r: "\<forall>j<10. retried w j" by simp
    note e = perform_exhausted [OF assms(1) r]
    have sl: "sleeps (trace (snd (performCallAndReadResponse w req data))) = map (wait w) [0..<Suc k]"
      by (simp add: e(2) k9 sleeps_append sleeps_retried_events pre del: retried_events.simps)
    have "map fst (sends (trace (snd (performCallAndReadResponse w req data)))) =
        map fst (map (\<lambda>j. (j, if j = 0 then b else [])) [0..<10])"
      by (simp add: e(2) sends_append sends_retried_events pre del: retried_events.simps)
    also have "\<dots> = [0..<10]" by (simp add: comp_def)
    finally have sn: "map fst (sends (trace (snd (performCallAndReadResponse w req data)))) = [0..<10]" .
    have "attempt_time w 10 = attempt_time w (Suc k)" using k9 by (simp only:) simp
    then have cl: "clock (snd (performCallAndReadResponse w req data)) =
        attempt_time w k + max 0 (sint (wait w k))"
      using t perform_exhausted_clock [OF assms(1) r, of data] by (simp only:)
    have la: "last (trace (snd (performCallAndReadResponse w req data))) = CloseBody 9"
      by (simp add: e(2) del: retried_events.simps)
    from cl sl e(1) la sn
    have "clock (snd (performCallAndReadResponse w req data)) = attempt_time w k + max 0 (sint (wait w k)) \<and>
         sleeps (trace (snd (performCallAndReadResponse w req data))) = map (wait w) [0..<Suc k] \<and>
         (fst (performCallAndReadResponse w req data) = Inl RetryLimitExceeded \<and>
          last (trace (snd (performCallAndReadResponse w req data))) = CloseBody 9 \<and>
          map fst (sends (trace (snd (performCallAndReadResponse w req data)))) = [0..<10])"
      by (intro conjI)
    then show ?thesis using False by (simp only: if_False)
  qed
qed

theorem cancellation_during_sleep_witness:
  "ctx_done_at cancelled_world = Some 50000000 \<and>
   fst (performCallAndReadResponse cancelled_world post_x (Some accept)) = Inl (FailedCall ''context canceled'') \<and>
   clock (snd (performCallAndReadResponse cancelled_world post_x (Some accept))) = 100000000 \<and>
   sleeps (trace (snd (performCallAndReadResponse cancelled_world post_x (Some accept)))) = [100000000] \<and>
   last (trace (snd (performCallAndReadResponse cancelled_world post_x (Some accept)))) = Send 1 [] \<and>
   ctx_done_at late_cancelled_world = Some 950000000 \<and>
   fst (performCallAndReadResponse late_cancelled_world post_x (Some accept)) = Inl RetryLimitExceeded \<and>
   clock (snd (performCallAndReadResponse late_cancelled_world post_x (Some accept))) = 1000000000 \<and>
   length (sleeps (trace (snd (performCallAndReadResponse late_cancelled_world post_x (Some accept))))) = 10 \<and>
   last (trace (snd (performCallAndReadResponse late_cancelled_world post_x (Some accept)))) = CloseBody 9"
proof -
  have b: "read_request_body (ReqBody post_x) = Inr (''x'', [ReadRequestBody])"
    by (simp add: read_request_body_def post_x_def ReadAll_def)
  have k0: "(0::nat) < 10" and k9: "(9::nat) < 10" by simp_all
  have r0: "\<forall>j<Suc 0. retried cancelled_world j"
    by (simp add: cancelled_world_retried)
  have c0: "ctx_done_at cancelled_world = Some 50000000"
    by (simp add: cancelled_world_def)
  have t1: "attempt_time cancelled_world (Suc 0) = 100000000"
    by (simp add: cancelled_world_def busy_world_def httpClient_Do_def ctx_done_def waitTime_def response_def)
  have w0: "wait cancelled_world 0 = 100000000"
    by (simp add: wait_def outcome_def cancelled_world_def busy_world_def httpClient_Do_def
        ctx_done_def waitTime_def response_def)
  have lt0: "attempt_time cancelled_world 0 < 50000000" by simp
  have le0: "50000000 \<le> attempt_time cancelled_world (Suc 0)" by (simp only: t1)
  have r9: "\<forall>j<Suc 9. retried late_cancelled_world j"
    by (simp add: late_cancelled_world_retried)
  have c9: "ctx_done_at late_cancelled_world = Some 950000000"
    by (simp add: late_cancelled_world_def)
  have t9: "attempt_time late_cancelled_world 9 = 900000000"
    using late_cancelled_world_time [of 9] by simp
  have t10: "attempt_time late_cancelled_world (Suc 9) = 1000000000"
    using late_cancelled_world_time [of "Suc 9"] by simp
  have w9: "wait late_cancelled_world 9 = 100000000"
    using t9
    by (simp add: wait_def outcome_def httpClient_Do_def ctx_done_def c9)
       (simp add: late_cancelled_world_def busy_world_def waitTime_def response_def)
  have lt9: "attempt_time late_cancelled_world 9 < 950000000" by (simp only: t9)
  have le9: "950000000 \<le> attempt_time late_cancelled_world (Suc 9)" by (simp only: t10)
  have first: "fst (performCallAndReadResponse cancelled_world post_x (Some accept)) = Inl (FailedCall ''context canceled'') \<and>
   clock (snd (performCallAndReadResponse cancelled_world post_x (Some accept))) = 100000000 \<and>
   sleeps (trace (snd (performCallAndReadResponse cancelled_world post_x (Some accept)))) = [100000000] \<and>
   last (trace (snd (performCallAndReadResponse cancelled_world post_x (Some accept)))) = Send 1 []"
    using cancellation_during_sleep [OF b k0 r0 c0 lt0 le0, of "Some accept"] w0
    by simp
  have "sleeps (trace (snd (performCallAndReadResponse late_cancelled_world post_x (Some accept)))) =
      map (wait late_cancelled_world) [0..<Suc 9]"
    using cancellation_during_sleep [OF b k9 r9 c9 lt9 le9, of "Some accept"] by (simp only:)
  then have len: "length (sleeps (trace (snd (performCallAndReadResponse late_cancelled_world post_x (Some accept))))) = 10"
    by simp
  have last: "fst (performCallAndReadResponse late_cancelled_world post_x (Some accept)) = Inl RetryLimitExceeded \<and>
   clock (snd (performCallAndReadResponse late_cancelled_world post_x (Some accept))) = 1000000000 \<and>
   last (trace (snd (performCallAndReadResponse late_cancelled_world post_x (Some accept)))) = CloseBody 9"
    using cancellation_during_sleep [OF b k9 r9 c9 lt9 le9, of "Some accept"] w9 t9
    by simp
  show ?thesis using first last len c0 c9 by (intro conjI) simp_all
qed

text \<open>
  The claim as stated asks for a prompt end and an outcome of its own. With 100 ms of
  backoff and a cancellation after 50 ms, the call sleeps the full 100 ms, sends again,
  and returns an error of the kind a refused connection produces.
\<close>

theorem cancellation_not_honoured:
  "ctx_done_at cancelled_world = Some 50000000 \<and>
   trace (snd (performCallAndReadResponse cancelled_world post_x (Some accept))) =
     [ReadRequestBody, AddAuthHeaders, Send 0 ''x'', ReadResponseBody 0, CloseBody 0,
      Sleep 100000000, Send 1 []] \<and>
   clock (snd (performCallAndReadResponse cancelled_world post_x (Some accept))) = 100000000 \<and>
   fst (performCallAndReadResponse cancelled_world post_x (Some accept)) = Inl (FailedCall ''context canceled'') \<and>
   fst (performCallAndReadResponse refusing_world post_x (Some accept)) = Inl (FailedCall ''connection refused'')"
  by (simp add: performCallAndReadResponse_def read_request_body_def ReadAll_def post_x_def
      initial_state_def retry_loop.simps attempt_def httpClient_Do_def ctx_done_def
      cancelled_world_def busy_world_def refusing_world_def
      response_def waitTime_def deferred_close_def accept_def)

section \<open>Properties of the callers\<close>

subsection \<open>GetAssetByName\<close>

text \<open>
  Claim C10. When the request can be built and the call succeeds with the assets decoded
  from the response, \<^verbatim>\<open>GetAssetByName\<close> returns the error "No assets matching name" for an
  empty list, the asset and no error for a list of exactly one asset, and for a longer
  list the error "More than one asset matching name", which carries the number of assets.
\<close>

theorem asset_by_name_result:
  assumes "json_Marshal lib (asset_payload name) = Inr jsonBody"
    and "post_json lib (url c @ ''/api/v3/assets/search'') jsonBody = Inr req"
    and "fst (performCallAndReadResponse w req (Some decode)) = Inr (Some assets)"
  shows "GetAssetByName lib c w decode name =
     (case assets of
        [] \<Rightarrow> Inl (NoAssetsMatching name)
      | [a] \<Rightarrow> Inr a
      | _ \<Rightarrow> Inl (MoreThanOneAsset name (length assets)))"
  using assms by (simp add: GetAssetByName_def split: list.splits)

theorem asset_by_name_result_witness:
  "GetAssetByName plain_lib example_client ready_world one_asset ''web-1'' = Inr ''web-1''"
proof -
  let ?req = "Header_Set ''Accept'' ''application/json''
     (Header_Set ''Content-Type'' ''application/json''
       \<lparr>Method = ''POST'', URL = ''https://cloud.example/api/v3/assets/search'',
        ReqHeader = Map.empty, ReqBody = Some \<lparr>unread = ''filter'', read_err = None\<rparr>\<rparr>)"
  have m: "json_Marshal plain_lib (asset_payload ''web-1'') = Inr ''filter''"
    by (simp add: plain_lib_def)
  have p: "post_json plain_lib (url example_client @ ''/api/v3/assets/search'') ''filter'' = Inr ?req"
    by (simp add: post_json_def NewRequest_def plain_lib_def example_client_def)
  have b: "read_request_body (ReqBody ?req) = Inr (''filter'', [ReadRequestBody])"
    by (simp add: read_request_body_def Header_Set_def ReadAll_def)
  have d: "httpClient_Do ready_world 0 0 = Inr (response 200 ''done'')"
    by (simp add: httpClient_Do_def ctx_done_def ready_world_def)
  have c: "fst (performCallAndReadResponse ready_world ?req (Some one_asset)) = Inr (Some [''web-1''])"
    by (rule perform_ready [OF b d]) (simp_all add: response_def one_asset_def)
  show ?thesis
    using asset_by_name_result [OF m p c] by simp
qed

subsection \<open>GetFindingsByAssetName\<close>

lemma post_json_page:
  "NewRequest_err lib (url c @ findings_path) = None \<Longrightarrow>
   post_json lib (url c @ findings_path) b = Inr (page_request c b)"
  by (simp add: post_json_def NewRequest_def Header_Set_def page_request_def)

text \<open>The body the code builds for a follow-up page is the prescribed one.\<close>

lemma jsonNext_prescribed: "jsonNext nxt = next_page_body nxt"
  by (simp add: jsonNext_def next_page_body_def)

lemma pages_loop_done:
  "pages_loop lib c calls decode k [] findings reqs = Some (Inr findings, reqs)"
  by (subst pages_loop.simps) simp

lemma pages_loop_serves:
  assumes "NewRequest_err lib (url c @ findings_path) = None"
  shows "nxt \<noteq> [] \<Longrightarrow> serves c calls decode k (next_page_body nxt) ps \<Longrightarrow>
    pages_loop lib c calls decode k nxt findings reqs =
      Some (Inr (findings @ concat (map Findings ps)),
            reqs @ map (page_request c)
              (next_page_body nxt # map (\<lambda>p. next_page_body (Next (Pagination p))) (butlast ps)))"
proof (induction ps arbitrary: k nxt findings reqs)
  case Nil
  then show ?case by simp
next
  case (Cons p ps)
  from Cons.prems(2) have f:
    "fst (performCallAndReadResponse (calls k) (page_request c (next_page_body nxt)) (Some decode)) = Inr (Some p)"
    by simp
  show ?case
  proof (cases "ps = []")
    case True
    with Cons.prems(2) have "Next (Pagination p) = []" by simp
    then show ?thesis
      using Cons.prems(1) True f
      by (subst pages_loop.simps)
         (simp add: post_json_page [OF assms] result_after_def pages_loop_done jsonNext_prescribed)
  next
    case False
    with Cons.prems(2) have n: "Next (Pagination p) \<noteq> []"
      and s: "serves c calls decode (Suc k) (next_page_body (Next (Pagination p))) ps" by simp_all
    note IH = Cons.IH [OF n s]
    show ?thesis
      using Cons.prems(1) False f
      by (subst pages_loop.simps)
         (simp add: post_json_page [OF assms] result_after_def IH jsonNext_prescribed)
  qed
qed

text \<open>
  Claim C8. When the request can be built and the backend serves the pages \<open>ps\<close>, of which
  the last is the first with an empty cursor, \<^verbatim>\<open>GetFindingsByAssetName\<close> returns, and
  returns the findings of the pages in the order of the pages. It makes one call of
  \<^verbatim>\<open>performCallAndReadResponse\<close> per page and none after the page with the empty cursor;
  the first request carries the encoded filter, and the request for each later page
  carries exactly the prescribed bytes \<^verbatim>\<open>{"next":"<cursor>"}\<close> (\<open>next_page_body\<close>, which
  is defined apart from the code) with the cursor of the page before it.
\<close>

theorem findings_pages_concatenated:
  assumes "json_Marshal lib (findings_payload name) = Inr jsonBody"
    and "NewRequest_err lib (url c @ findings_path) = None"
    and "serves c calls decode 0 jsonBody ps"
  shows "\<exists>reqs. GetFindingsByAssetName lib c calls decode name =
           Some (Inr (concat (map Findings ps)), reqs) \<and>
         length reqs = length ps \<and>
         map body_bytes reqs =
           jsonBody # map (\<lambda>p. next_page_body (Next (Pagination p))) (butlast ps)"
proof (cases ps)
  case Nil
  with assms(3) show ?thesis by simp
next
  case (Cons p ps')
  from assms(3) Cons have f:
    "fst (performCallAndReadResponse (calls 0) (page_request c jsonBody) (Some decode)) = Inr (Some p)"
    by simp
  have bb: "\<And>bs. map body_bytes (map (page_request c) bs) = bs"
    by (simp add: body_bytes_def page_request_def comp_def)
  show ?thesis
  proof (cases "ps' = []")
    case True
    with assms(3) Cons have "Next (Pagination p) = []" by simp
    then show ?thesis
      using Cons True f assms(1)
      by (simp add: GetFindingsByAssetName_def post_json_page [OF assms(2)]
          result_after_def pages_loop_done body_bytes_def page_request_def)
  next
    case False
    with assms(3) Cons have n: "Next (Pagination p) \<noteq> []"
      and s: "serves c calls decode (Suc 0) (next_page_body (Next (Pagination p))) ps'" by simp_all
    note l = pages_loop_serves [OF assms(2) n s, where findings = "Findings p"
        and reqs = "[page_request c jsonBody]"]
    have "GetFindingsByAssetName lib c calls decode name =
        Some (Inr (Findings p @ concat (map Findings ps')),
              [page_request c jsonBody] @ map (page_request c)
                (next_page_body (Next (Pagination p)) # map (\<lambda>p. next_page_body (Next (Pagination p))) (butlast ps')))"
      using f assms(1) l
      by (simp add: GetFindingsByAssetName_def post_json_page [OF assms(2)] result_after_def)
    then show ?thesis
      using Cons False bb [of "jsonBody # next_page_body (Next (Pagination p)) # map (\<lambda>p. next_page_body (Next (Pagination p))) (butlast ps')"]
      by simp
  qed
qed

text \<open>
  The pages \<open>[A, B]\<close> with cursor \<open>c1\<close> and \<open>[C]\<close> with the empty cursor: the result is
  \<open>[A, B, C]\<close> after two calls, the second with the body \<^verbatim>\<open>{"next":"c1"}\<close>.
\<close>

theorem findings_pages_concatenated_witness:
  "\<exists>reqs. GetFindingsByAssetName plain_lib example_client two_page_backend decode_page ''web-1'' =
           Some (Inr [''A'', ''B'', ''C''], reqs) \<and>
         length reqs = 2 \<and>
         map body_bytes reqs =
           [''filter'',
            [CHR ''{'', CHR 0x22, CHR ''n'', CHR ''e'', CHR ''x'', CHR ''t'', CHR 0x22, CHR '':'',
             CHR 0x22, CHR ''c'', CHR ''1'', CHR 0x22, CHR ''}'']]"
proof -
  have m: "json_Marshal plain_lib (findings_payload ''web-1'') = Inr ''filter''"
    by (simp add: plain_lib_def)
  have n: "NewRequest_err plain_lib (url example_client @ findings_path) = None"
    by (simp add: plain_lib_def)
  have b: "\<And>b. read_request_body (ReqBody (page_request example_client b)) = Inr (b, [ReadRequestBody])"
    by (simp add: read_request_body_def page_request_def ReadAll_def)
  have d0: "httpClient_Do (two_page_backend 0) 0 0 = Inr (response 200 ''first'')"
    by (simp add: httpClient_Do_def ctx_done_def two_page_backend_def)
  have d1: "httpClient_Do (two_page_backend (Suc 0)) 0 0 = Inr (response 200 ''second'')"
    by (simp add: httpClient_Do_def ctx_done_def two_page_backend_def)
  have p0: "fst (performCallAndReadResponse (two_page_backend 0)
      (page_request example_client ''filter'') (Some decode_page)) = Inr (Some page_one)"
    by (rule perform_ready [OF b d0]) (simp_all add: response_def decode_page_def)
  have p1: "fst (performCallAndReadResponse (two_page_backend (Suc 0))
      (page_request example_client (next_page_body ''c1'')) (Some decode_page)) = Inr (Some page_two)"
    by (rule perform_ready [OF b d1]) (simp_all add: response_def decode_page_def)
  have s: "serves example_client two_page_backend decode_page 0 ''filter'' [page_one, page_two]"
    using p0 p1 by (simp add: page_one_def page_two_def)
  show ?thesis
    using findings_pages_concatenated [OF m n s]
    by (auto simp: page_one_def page_two_def next_page_body_def numeral_2_eq_2)
qed

end
